theory Spec2Isabelle
  imports Complex_Main
begin

section \<open>Values, errors and the resolution table\<close>

text \<open>
  The request bodies are JSON texts that \<open>JSONRequestHandler.prepare\<close> turns into Python
  values with \<open>json.loads\<close>. A handler receives the decoded object \<open>self.json_args\<close>, a
  dictionary from field names to values. Numbers with a fraction or an exponent (Python
  floats) are left out of the value type: everything below is integer arithmetic.
\<close>

datatype json =
    JNull
  | JBool bool
  | JInt int
  | JStr string
  | JArr "json list"
  | JObj "(string \<times> json) list"

type_synonym json_args = "string \<rightharpoonup> json"

text \<open>
  The exceptions the handlers can raise. \<open>HTTPError\<close> is \<open>tornado.web.HTTPError\<close> with its
  status code: \<open>prepare\<close> raises \<open>HTTPError 400\<close> for a POST that is not JSON, and the two
  response callbacks raise \<open>HTTPError 500\<close> for a failure of the store. The others are
  Python's built-in exceptions; nothing in the handlers catches them, and the web
  framework answers an uncaught exception with status 500.
\<close>

datatype error =
    HTTPError nat
  | KeyError json
  | ValueError
  | TypeError
  | ZeroDivisionError

fun http_status :: "error \<Rightarrow> nat" where
  "http_status (HTTPError code) = code"
| "http_status _ = 500"

text \<open>
  \<open>data[key]\<close> on the decoded request object.
\<close>

definition getitem :: "json_args \<Rightarrow> string \<Rightarrow> error + json" where
  "getitem data key = (case data key of None \<Rightarrow> Inl (KeyError (JStr key)) | Some v \<Rightarrow> Inr v)"

text \<open>
  The built-in \<open>int(v)\<close> on a decoded value. An integer converts to itself and a boolean to
  0 or 1; \<open>None\<close>, a list and a dictionary raise TypeError. How \<open>int\<close> reads a text is not
  part of this program: it is the parameter \<open>parse\<close>, and a text it refuses raises
  ValueError.
\<close>

fun py_int :: "(string \<Rightarrow> int option) \<Rightarrow> json \<Rightarrow> error + int" where
  "py_int parse (JInt n) = Inr n"
| "py_int parse (JBool b) = Inr (if b then 1 else 0)"
| "py_int parse (JStr s) = (case parse s of None \<Rightarrow> Inl ValueError | Some n \<Rightarrow> Inr n)"
| "py_int parse JNull = Inl TypeError"
| "py_int parse (JArr xs) = Inl TypeError"
| "py_int parse (JObj kvs) = Inl TypeError"

text \<open>
  One conversion the parameter can be, used to run the model on concrete requests: a
  non-empty text of ASCII digits is the number it writes in base ten, as for \<open>int\<close>; any
  other text is refused here (\<open>int\<close> itself also accepts a sign and surrounding blanks).
\<close>

fun decimal :: "nat \<Rightarrow> string \<Rightarrow> nat option" where
  "decimal acc [] = Some acc"
| "decimal acc (c # cs) =
     (let d = (of_char c :: nat)
      in if 48 \<le> d \<and> d \<le> 57 then decimal (10 * acc + (d - 48)) cs else None)"

definition plain_decimal :: "string \<Rightarrow> int option" where
  "plain_decimal s = (if s = [] then None else map_option int (decimal 0 s))"

text \<open>
  \<open>TIME_RESOLUTIONS\<close>: the sampling resolutions, a dictionary from a name to a width in
  seconds. The source notes that the dictionary may be extended, so the handlers below
  take the table as an argument, as the list of its items in iteration order.
\<close>

type_synonym registry = "(string \<times> int) list"

definition TIME_RESOLUTIONS :: registry where
  "TIME_RESOLUTIONS = [(''hour'', 3600), (''day'', 86400)]"

text \<open>
  \<open>TIME_RESOLUTIONS[key]\<close> with a decoded value as the key. The keys of the table are
  texts, so only a text can be found; a list or a dictionary is unhashable (TypeError),
  every other value is a missing key (KeyError).
\<close>

fun registry_getitem :: "registry \<Rightarrow> json \<Rightarrow> error + int" where
  "registry_getitem reg (JStr s) =
     (case map_of reg s of None \<Rightarrow> Inl (KeyError (JStr s)) | Some seconds \<Rightarrow> Inr seconds)"
| "registry_getitem reg (JArr xs) = Inl TypeError"
| "registry_getitem reg (JObj kvs) = Inl TypeError"
| "registry_getitem reg k = Inl (KeyError k)"

section \<open>Rounding a time to its bucket\<close>

text \<open>
  \<open>JSONRequestHandler._round_time\<close>: \<open>int(time - (time % resolution))\<close> on Python
  integers, which are unbounded. Python's \<open>%\<close> takes the sign of the divisor, as \<open>mod\<close> on
  \<open>int\<close> does, and raises ZeroDivisionError for a zero divisor.
\<close>

definition round_time :: "int \<Rightarrow> int \<Rightarrow> error + int" where
  "round_time t resolution =
     (if resolution = 0 then Inl ZeroDivisionError else Inr (t - (t mod resolution)))"

section \<open>Ingestion: \<open>EventsHandler\<close>\<close>

text \<open>
  A document of the collection \<open>events\<close>, with the three fields \<open>post\<close> writes. \<open>type\<close> and
  \<open>object_id\<close> are stored as they came in the request; \<open>time\<close> is the rounded timestamp.
\<close>

record event =
  ev_type :: json
  ev_time :: int
  ev_object_id :: json

text \<open>
  \<open>_prepare_timestamps_for_insert\<close> is a generator: for each item of the table it yields
  the rounded time, or raises where \<open>_round_time\<close> does. It is modelled as the list of
  these outcomes, consumed from the left.
\<close>

definition prepare_timestamps_for_insert :: "registry \<Rightarrow> int \<Rightarrow> (error + int) list" where
  "prepare_timestamps_for_insert reg t = map (\<lambda>(resolution, seconds). round_time t seconds) reg"

text \<open>
  The generator expression handed to \<open>insert\<close>: one document per timestamp, built by
  reading \<open>data["type"]\<close> and then \<open>data["object_id"]\<close>. The first exception, from the
  timestamp generator or from a missing field, ends the iteration before anything is
  sent to the store.
\<close>

fun documents :: "json_args \<Rightarrow> (error + int) list \<Rightarrow> error + event list" where
  "documents data [] = Inr []"
| "documents data (Inl e # rest) = Inl e"
| "documents data (Inr timestamp # rest) =
     (case getitem data ''type'' of Inl e \<Rightarrow> Inl e | Inr ty \<Rightarrow>
       (case getitem data ''object_id'' of Inl e \<Rightarrow> Inl e | Inr oid \<Rightarrow>
         (case documents data rest of Inl e \<Rightarrow> Inl e | Inr docs \<Rightarrow>
            Inr (\<lparr>ev_type = ty, ev_time = timestamp, ev_object_id = oid\<rparr> # docs))))"

text \<open>
  \<open>EventsHandler.post\<close>: \<open>int(data["time"])\<close> is evaluated first, then the documents are
  generated. The result is the batch submitted to the store in one \<open>insert\<close>, or the
  exception raised.
\<close>

definition EventsHandler_post ::
  "(string \<Rightarrow> int option) \<Rightarrow> registry \<Rightarrow> json_args \<Rightarrow> error + event list" where
  "EventsHandler_post parse reg data =
     (case getitem data ''time'' of Inl e \<Rightarrow> Inl e | Inr v \<Rightarrow>
       (case py_int parse v of Inl e \<Rightarrow> Inl e | Inr t \<Rightarrow>
          documents data (prepare_timestamps_for_insert reg t)))"

text \<open>
  The store keeps the documents it is given; \<open>insert\<close> adds the batch to the collection.
\<close>

definition events_insert :: "event list \<Rightarrow> event list \<Rightarrow> event list" where
  "events_insert db batch = db @ batch"

section \<open>Statistics: \<open>StatsHandler\<close> and the aggregation pipeline\<close>

text \<open>
  \<open>StatsHandler._compute_start_and_end\<close>, with the reading of the clock (\<open>self._now()\<close>,
  the current time in whole seconds) as the argument \<open>clock\<close>.
\<close>

definition compute_start_and_end :: "int \<Rightarrow> int \<Rightarrow> int \<Rightarrow> error + (int \<times> int)" where
  "compute_start_and_end clock resolution limit =
     (case round_time clock resolution of Inl e \<Rightarrow> Inl e | Inr now \<Rightarrow>
        Inr (now - (resolution * limit), now))"

text \<open>
  \<open>StatsHandler.post\<close> up to the call of the store: \<open>int(data["object_id"])\<close>, then the
  table lookup \<open>TIME_RESOLUTIONS[data['resolution']]\<close>, then \<open>int(data['limit'])\<close>, then
  the window. The result is the triple of arguments given to \<open>aggregate_events\<close>, or the
  exception raised.
\<close>

definition StatsHandler_post ::
  "(string \<Rightarrow> int option) \<Rightarrow> registry \<Rightarrow> int \<Rightarrow> json_args \<Rightarrow> error + (int \<times> int \<times> int)" where
  "StatsHandler_post parse reg clock data =
     (case getitem data ''object_id'' of Inl e \<Rightarrow> Inl e | Inr v \<Rightarrow>
       (case py_int parse v of Inl e \<Rightarrow> Inl e | Inr object_id \<Rightarrow>
         (case getitem data ''resolution'' of Inl e \<Rightarrow> Inl e | Inr name \<Rightarrow>
           (case registry_getitem reg name of Inl e \<Rightarrow> Inl e | Inr resolution \<Rightarrow>
             (case getitem data ''limit'' of Inl e \<Rightarrow> Inl e | Inr l \<Rightarrow>
               (case py_int parse l of Inl e \<Rightarrow> Inl e | Inr limit \<Rightarrow>
                 (case compute_start_and_end clock resolution limit of Inl e \<Rightarrow> Inl e
                  | Inr (start, end) \<Rightarrow> Inr (object_id, start, end))))))))"

text \<open>
  \<open>aggregate_events\<close> returns a pipeline of five stages that the store runs over the
  collection. Each stage is modelled as the function on lists of documents that it
  denotes, and the pipeline as their composition. A \<open>$group\<close> stage emits its groups in no
  specified order; the model emits them in the order of \<open>remdups\<close>, and the theorems
  below do not depend on that order. Values are compared as HOL values; for the
  documents the theorems are about (a text as \<open>type\<close>, an integer as \<open>object_id\<close>) this
  is the comparison of the store.

  Stage 1, \<open>$match\<close>: the documents of the object whose time lies in the closed window.
\<close>

definition stage_match :: "int \<Rightarrow> int \<Rightarrow> int \<Rightarrow> event list \<Rightarrow> event list" where
  "stage_match object_id start end docs =
     filter (\<lambda>d. ev_object_id d = JInt object_id \<and> ev_time d \<le> end \<and> start \<le> ev_time d) docs"

text \<open>
  Stage 2, \<open>$group\<close> with \<open>_id = {type, time}\<close> and \<open>count = {$sum: 1}\<close>: one document for
  each pair that occurs, counting the documents that have it.
\<close>

record grouped =
  g_id_type :: json
  g_id_time :: int
  g_count :: nat

definition stage_group_count :: "event list \<Rightarrow> grouped list" where
  "stage_group_count docs =
     map (\<lambda>(ty, tm). \<lparr>g_id_type = ty, g_id_time = tm,
                      g_count = length (filter (\<lambda>d. ev_type d = ty \<and> ev_time d = tm) docs)\<rparr>)
         (remdups (map (\<lambda>d. (ev_type d, ev_time d)) docs))"

text \<open>
  Stage 3, \<open>$project\<close>: \<open>time\<close> and \<open>type\<close> are lifted out of \<open>_id\<close>, \<open>count\<close> is kept; the
  groups have no field \<open>object_id\<close>, so its inclusion adds nothing.
\<close>

record counted =
  c_time :: int
  c_type :: json
  c_count :: nat

definition stage_project_count :: "grouped list \<Rightarrow> counted list" where
  "stage_project_count gs =
     map (\<lambda>g. \<lparr>c_time = g_id_time g, c_type = g_id_type g, c_count = g_count g\<rparr>) gs"

text \<open>
  Stage 4, \<open>$group\<close> with \<open>_id = {type}\<close> and \<open>events = {$push: {events: count, time: time}}\<close>:
  one document for each type, holding a point for each input document of that type, in
  input order.
\<close>

record point =
  pt_events :: nat
  pt_time :: int

record collected =
  cl_id_type :: json
  cl_events :: "point list"

definition stage_group_push :: "counted list \<Rightarrow> collected list" where
  "stage_group_push cs =
     map (\<lambda>ty. \<lparr>cl_id_type = ty,
                cl_events = map (\<lambda>c. \<lparr>pt_events = c_count c, pt_time = c_time c\<rparr>)
                                (filter (\<lambda>c. c_type c = ty) cs)\<rparr>)
         (remdups (map c_type cs))"

text \<open>
  Stage 5, \<open>$project\<close>: \<open>type\<close> is lifted out of \<open>_id\<close>, \<open>events\<close> is kept.
\<close>

record series =
  sr_type :: json
  sr_events :: "point list"

definition stage_project_series :: "collected list \<Rightarrow> series list" where
  "stage_project_series cs = map (\<lambda>c. \<lparr>sr_type = cl_id_type c, sr_events = cl_events c\<rparr>) cs"

text \<open>
  The count stage, stages 2 and 3 together, and the number it attaches to a pair: how many
  of the documents have that type and that time.
\<close>

definition counts :: "event list \<Rightarrow> counted list" where
  "counts docs = stage_project_count (stage_group_count docs)"

definition count_of :: "event list \<Rightarrow> json \<Rightarrow> int \<Rightarrow> nat" where
  "count_of docs ty tm = length (filter (\<lambda>d. ev_type d = ty \<and> ev_time d = tm) docs)"

definition aggregate_events :: "int \<Rightarrow> int \<Rightarrow> int \<Rightarrow> event list \<Rightarrow> series list" where
  "aggregate_events object_id start end docs =
     stage_project_series (stage_group_push (stage_project_count (stage_group_count
       (stage_match object_id start end docs))))"

text \<open>
  \<open>post\<close> reads the result with \<open>to_list(max_items)\<close>: the callback receives at most
  \<open>max_items\<close> of the documents of the pipeline, one document per type. The setting
  defaults to 9999999999; the whole output is delivered unless the types outnumber it.
\<close>

definition to_list :: "nat \<Rightarrow> 'a list \<Rightarrow> 'a list" where
  "to_list max_items xs = take max_items xs"

text \<open>
  A Python dictionary with decoded values as keys, as the list of its items. Lists and
  dictionaries are unhashable. Two keys are the same key when Python finds them equal:
  \<open>True\<close> and \<open>False\<close> are equal to 1 and 0, every other value only to itself. Storing
  under a key that is present keeps the key and replaces the value.
\<close>

fun hashable :: "json \<Rightarrow> bool" where
  "hashable (JArr xs) = False"
| "hashable (JObj kvs) = False"
| "hashable v = True"

fun as_number :: "json \<Rightarrow> json" where
  "as_number (JBool b) = JInt (if b then 1 else 0)"
| "as_number v = v"

definition py_eq :: "json \<Rightarrow> json \<Rightarrow> bool" where
  "py_eq a b = (as_number a = as_number b)"

fun dict_setitem :: "(json \<times> 'v) list \<Rightarrow> json \<Rightarrow> 'v \<Rightarrow> (json \<times> 'v) list" where
  "dict_setitem [] k v = [(k, v)]"
| "dict_setitem ((k', v') # d) k v =
     (if py_eq k' k then (k', v) # d else (k', v') # dict_setitem d k v)"

text \<open>
  \<open>StatsHandler._on_post_response\<close>: a failure of the store is answered with
  \<open>HTTPError 500\<close>; otherwise the response is the dictionary
  \<open>{obj["type"]: obj["events"] for obj in result}\<close>, built from the left, which
  \<open>json.dumps\<close> then writes out.
\<close>

type_synonym response = "(json \<times> point list) list"

fun comprehension :: "response \<Rightarrow> series list \<Rightarrow> error + response" where
  "comprehension d [] = Inr d"
| "comprehension d (obj # result) =
     (if hashable (sr_type obj)
      then comprehension (dict_setitem d (sr_type obj) (sr_events obj)) result
      else Inl TypeError)"

definition StatsHandler_on_post_response :: "series list \<Rightarrow> string option \<Rightarrow> error + response" where
  "StatsHandler_on_post_response result err =
     (case err of Some e \<Rightarrow> Inl (HTTPError 500) | None \<Rightarrow> comprehension [] result)"

text \<open>
  The sum of \<open>events\<close> over all types and all points of a response.
\<close>

definition total_events :: "response \<Rightarrow> nat" where
  "total_events resp = sum_list (map (\<lambda>(ty, pts). sum_list (map pt_events pts)) resp)"

text \<open>
  A RollupRecord as the data model has it: the type is a text and the object identifier
  an integer.
\<close>

fun is_text :: "json \<Rightarrow> bool" where
  "is_text (JStr s) = True"
| "is_text v = False"

fun is_integer :: "json \<Rightarrow> bool" where
  "is_integer (JInt n) = True"
| "is_integer v = False"

definition rollup_record :: "event \<Rightarrow> bool" where
  "rollup_record d = (is_text (ev_type d) \<and> is_integer (ev_object_id d))"

section \<open>Concrete requests\<close>

text \<open>
  Requests on which the handlers are run below: an event at time 3661, an event whose
  \<open>type\<close> is the empty text and whose \<open>object_id\<close> is not a number, an event without
  \<open>time\<close>, and two statistics requests, for the resolutions \<open>hour\<close> and \<open>week\<close>.
\<close>

definition click_event :: json_args where
  "click_event = [''type'' \<mapsto> JStr ''click'', ''object_id'' \<mapsto> JInt 7, ''time'' \<mapsto> JInt 3661]"

definition unchecked_event :: json_args where
  "unchecked_event = [''type'' \<mapsto> JStr [], ''object_id'' \<mapsto> JStr ''abc'', ''time'' \<mapsto> JInt 3661]"

definition timeless_event :: json_args where
  "timeless_event = [''type'' \<mapsto> JStr ''click'', ''object_id'' \<mapsto> JInt 7]"

definition hour_request :: json_args where
  "hour_request = [''object_id'' \<mapsto> JInt 7, ''resolution'' \<mapsto> JStr ''hour'', ''limit'' \<mapsto> JInt 3]"

definition week_request :: json_args where
  "week_request = [''object_id'' \<mapsto> JInt 7, ''resolution'' \<mapsto> JStr ''week'', ''limit'' \<mapsto> JInt 3]"

text \<open>
  A collection on which the pipeline is run below: two documents of type \<open>A\<close> at time 0
  and one of type \<open>B\<close> at time 3600, all of object 7. And an event in the first hour of
  a day.
\<close>

definition example_records :: "event list" where
  "example_records =
     [\<lparr>ev_type = JStr ''A'', ev_time = 0, ev_object_id = JInt 7\<rparr>,
      \<lparr>ev_type = JStr ''A'', ev_time = 0, ev_object_id = JInt 7\<rparr>,
      \<lparr>ev_type = JStr ''B'', ev_time = 3600, ev_object_id = JInt 7\<rparr>]"

definition early_event :: json_args where
  "early_event = [''type'' \<mapsto> JStr ''click'', ''object_id'' \<mapsto> JInt 7, ''time'' \<mapsto> JInt 100]"

section \<open>The time bucketer\<close>

lemma round_time_Inr:
  "resolution \<noteq> 0 \<Longrightarrow> round_time t resolution = Inr (t - t mod resolution)"
  by (simp add: round_time_def)

text \<open>
  C4. For every integer \<open>t\<close>, negative ones included, and every width \<open>w > 0\<close>, the
  rounded time is \<open>t - (t mod w)\<close> with a remainder that is never negative; it is a
  multiple of \<open>w\<close>, it does not exceed \<open>t\<close>, \<open>t\<close> lies less than one width above it, and no
  multiple of \<open>w\<close> that does not exceed \<open>t\<close> is larger.
\<close>

theorem round_time_largest_multiple:
  assumes "0 < w"
  shows "\<exists>r. round_time t w = Inr r \<and> r = t - (t mod w) \<and> 0 \<le> t mod w
           \<and> w dvd r \<and> r \<le> t \<and> t < r + w \<and> (\<forall>m. m * w \<le> t \<longrightarrow> m * w \<le> r)"
proof -
  let ?r = "t - t mod w"
  have run: "round_time t w = Inr ?r"
    using assms by (simp add: round_time_Inr)
  have rem: "0 \<le> t mod w" "t mod w < w"
    using assms by simp_all
  have mult: "?r = (t div w) * w"
    by (simp add: minus_mod_eq_div_mult)
  have largest: "m * w \<le> ?r" if "m * w \<le> t" for m
  proof -
    have "m * w div w \<le> t div w"
      using that assms by (intro zdiv_mono1) simp_all
    then have "m \<le> t div w"
      using assms by simp
    then have "m * w \<le> (t div w) * w"
      using assms by (simp add: mult_right_mono)
    then show ?thesis
      by (simp add: mult)
  qed
  have "w dvd ?r"
    by (simp add: mult)
  with run rem largest show ?thesis
    by auto
qed

theorem round_time_largest_multiple_witness:
  "(0::int) < 3600 \<and> round_time (-1) 3600 = Inr (-3600) \<and> -3600 \<le> (-1::int) \<and> (-1::int) < -3600 + 3600"
proof -
  have w: "(0::int) < 3600" by simp
  from round_time_largest_multiple [OF w, of "-1"]
  have "round_time (-1) 3600 = Inr (-3600)" by auto
  with w show ?thesis by simp
qed

text \<open>
  C5. Rounding is idempotent: for every integer \<open>t\<close> and width \<open>w > 0\<close>, rounding the
  rounded time again returns it unchanged.
\<close>

theorem round_time_idempotent:
  assumes "0 < w"
  shows "\<exists>r. round_time t w = Inr r \<and> round_time r w = Inr r"
  using assms by (simp add: round_time_def)

theorem round_time_idempotent_witness:
  "(0::int) < 3600 \<and> round_time 3661 3600 = Inr 3600 \<and> round_time 3600 3600 = Inr 3600"
proof -
  have w: "(0::int) < 3600" by simp
  from round_time_idempotent [OF w, of 3661]
  obtain r where "round_time 3661 3600 = Inr r" "round_time r 3600 = Inr r" by blast
  moreover have "round_time 3661 3600 = Inr 3600"
    by (simp add: round_time_def)
  ultimately show ?thesis using w by simp
qed

section \<open>The rollup writer\<close>

lemma documents_Inr:
  "documents data (prepare_timestamps_for_insert reg t) = Inr batch \<Longrightarrow>
     length batch = length reg \<and>
     (\<forall>i < length reg. snd (reg ! i) \<noteq> 0
         \<and> data ''type'' = Some (ev_type (batch ! i))
         \<and> data ''object_id'' = Some (ev_object_id (batch ! i))
         \<and> ev_time (batch ! i) = t - t mod snd (reg ! i))"
proof (induction reg arbitrary: batch)
  case Nil
  then show ?case by (simp add: prepare_timestamps_for_insert_def)
next
  case (Cons r reg)
  obtain name seconds where r: "r = (name, seconds)" by (cases r)
  from Cons.prems have nz: "seconds \<noteq> 0"
    by (auto simp: prepare_timestamps_for_insert_def r round_time_def split: if_splits)
  from Cons.prems nz obtain ty oid rest where
    ty: "data ''type'' = Some ty" and oid: "data ''object_id'' = Some oid"
    and rest: "documents data (prepare_timestamps_for_insert reg t) = Inr rest"
    and batch: "batch = \<lparr>ev_type = ty, ev_time = t - t mod seconds, ev_object_id = oid\<rparr> # rest"
    by (auto simp: prepare_timestamps_for_insert_def r round_time_def getitem_def
             split: option.splits sum.splits)
  from Cons.IH [OF rest] have IH: "length rest = length reg"
    "\<forall>i < length reg. snd (reg ! i) \<noteq> 0
         \<and> data ''type'' = Some (ev_type (rest ! i))
         \<and> data ''object_id'' = Some (ev_object_id (rest ! i))
         \<and> ev_time (rest ! i) = t - t mod snd (reg ! i)" by simp_all
  show ?case
  proof (intro conjI allI impI)
    show "length batch = length (r # reg)" using IH(1) batch by simp
  next
    fix i assume "i < length (r # reg)"
    then show "snd ((r # reg) ! i) \<noteq> 0" using IH(2) nz r by (cases i) simp_all
  next
    fix i assume "i < length (r # reg)"
    then show "data ''type'' = Some (ev_type (batch ! i))"
      using IH(2) ty batch by (cases i) simp_all
  next
    fix i assume "i < length (r # reg)"
    then show "data ''object_id'' = Some (ev_object_id (batch ! i))"
      using IH(2) oid batch by (cases i) simp_all
  next
    fix i assume "i < length (r # reg)"
    then show "ev_time (batch ! i) = t - t mod snd ((r # reg) ! i)"
      using IH(2) r batch by (cases i) simp_all
  qed
qed


lemma documents_total:
  assumes "data ''type'' = Some ty" "data ''object_id'' = Some oid" "\<forall>r \<in> set reg. snd r \<noteq> 0"
  shows "documents data (prepare_timestamps_for_insert reg t) =
           Inr (map (\<lambda>(name, w). \<lparr>ev_type = ty, ev_time = t - t mod w, ev_object_id = oid\<rparr>) reg)"
  using assms(3)
proof (induction reg)
  case Nil
  then show ?case by (simp add: prepare_timestamps_for_insert_def)
next
  case (Cons r reg)
  then have "documents data (prepare_timestamps_for_insert reg t) =
           Inr (map (\<lambda>(name, w). \<lparr>ev_type = ty, ev_time = t - t mod w, ev_object_id = oid\<rparr>) reg)"
    by simp
  moreover have "prepare_timestamps_for_insert (r # reg) t
      = Inr (t - t mod snd r) # prepare_timestamps_for_insert reg t"
    using Cons.prems by (cases r) (simp add: prepare_timestamps_for_insert_def round_time_def)
  ultimately show ?case
    using assms(1,2) by (cases r) (simp add: getitem_def)
qed

lemma post_accepts_iff:
  "(\<exists>batch. EventsHandler_post parse reg data = Inr batch) \<longleftrightarrow>
     (\<exists>v t. data ''time'' = Some v \<and> py_int parse v = Inr t)
     \<and> (reg = [] \<or> (data ''type'' \<noteq> None \<and> data ''object_id'' \<noteq> None
                      \<and> (\<forall>r \<in> set reg. snd r \<noteq> 0)))"
proof
  assume "\<exists>batch. EventsHandler_post parse reg data = Inr batch"
  then obtain batch where acc: "EventsHandler_post parse reg data = Inr batch" ..
  then obtain v t where v: "data ''time'' = Some v" and t: "py_int parse v = Inr t"
    and docs: "documents data (prepare_timestamps_for_insert reg t) = Inr batch"
    by (auto simp: EventsHandler_post_def getitem_def split: option.splits sum.splits)
  note D = documents_Inr [OF docs]
  have "data ''type'' \<noteq> None \<and> data ''object_id'' \<noteq> None \<and> (\<forall>r \<in> set reg. snd r \<noteq> 0)"
    if "reg \<noteq> []"
  proof -
    from that have "0 < length reg" by simp
    with D have "data ''type'' \<noteq> None" "data ''object_id'' \<noteq> None" by auto
    moreover have "\<forall>r \<in> set reg. snd r \<noteq> 0"
    proof
      fix r assume "r \<in> set reg"
      then obtain i where "i < length reg" "reg ! i = r"
        by (auto simp: in_set_conv_nth)
      with D show "snd r \<noteq> 0" by blast
    qed
    ultimately show ?thesis by simp
  qed
  with v t show "(\<exists>v t. data ''time'' = Some v \<and> py_int parse v = Inr t)
     \<and> (reg = [] \<or> (data ''type'' \<noteq> None \<and> data ''object_id'' \<noteq> None
                      \<and> (\<forall>r \<in> set reg. snd r \<noteq> 0)))" by blast
next
  assume R: "(\<exists>v t. data ''time'' = Some v \<and> py_int parse v = Inr t)
     \<and> (reg = [] \<or> (data ''type'' \<noteq> None \<and> data ''object_id'' \<noteq> None
                      \<and> (\<forall>r \<in> set reg. snd r \<noteq> 0)))"
  then obtain v t where v: "data ''time'' = Some v" and t: "py_int parse v = Inr t" by blast
  have post: "EventsHandler_post parse reg data = documents data (prepare_timestamps_for_insert reg t)"
    using v t by (simp add: EventsHandler_post_def getitem_def)
  show "\<exists>batch. EventsHandler_post parse reg data = Inr batch"
  proof (cases "reg = []")
    case True
    then show ?thesis using post by (simp add: prepare_timestamps_for_insert_def)
  next
    case False
    with R obtain ty oid where "data ''type'' = Some ty" "data ''object_id'' = Some oid"
      and "\<forall>r \<in> set reg. snd r \<noteq> 0" by auto
    from documents_total [OF this] post show ?thesis by simp
  qed
qed

lemma py_int_status: "py_int parse v = Inl e \<Longrightarrow> http_status e = 500"
  by (cases v) (auto split: option.splits)

lemma getitem_status: "getitem data k = Inl e \<Longrightarrow> http_status e = 500"
  by (auto simp: getitem_def split: option.splits)

lemma round_time_status: "round_time t w = Inl e \<Longrightarrow> http_status e = 500"
  by (auto simp: round_time_def split: if_splits)

lemma documents_status:
  "documents data (prepare_timestamps_for_insert reg t) = Inl e \<Longrightarrow> http_status e = 500"
proof (induction reg)
  case Nil
  then show ?case by (simp add: prepare_timestamps_for_insert_def)
next
  case (Cons r reg)
  then show ?case
    by (cases r)
       (auto simp: prepare_timestamps_for_insert_def round_time_def getitem_def
             split: if_splits option.splits sum.splits)
qed

lemma post_status: "EventsHandler_post parse reg data = Inl e \<Longrightarrow> http_status e = 500"
  by (auto simp: EventsHandler_post_def split: sum.splits
           dest: py_int_status getitem_status documents_status)

lemma registry_getitem_status: "registry_getitem reg k = Inl e \<Longrightarrow> http_status e = 500"
  by (cases k) (auto split: option.splits)

lemma compute_status: "compute_start_and_end clock w l = Inl e \<Longrightarrow> http_status e = 500"
  by (auto simp: compute_start_and_end_def split: sum.splits dest: round_time_status)

lemma stats_post_status: "StatsHandler_post parse reg clock data = Inl e \<Longrightarrow> http_status e = 500"
  by (auto simp: StatsHandler_post_def split: sum.splits prod.splits
           dest: py_int_status getitem_status registry_getitem_status compute_status)

lemma click_event_post:
  "EventsHandler_post plain_decimal TIME_RESOLUTIONS click_event =
     Inr [\<lparr>ev_type = JStr ''click'', ev_time = 3600, ev_object_id = JInt 7\<rparr>,
          \<lparr>ev_type = JStr ''click'', ev_time = 0, ev_object_id = JInt 7\<rparr>]"
  by (simp add: EventsHandler_post_def click_event_def TIME_RESOLUTIONS_def getitem_def
        prepare_timestamps_for_insert_def round_time_def)



text \<open>
  C8, as the code has it. \<open>post\<close> does not check that \<open>type\<close> is a non-empty text or that
  \<open>object_id\<close> is an integer: an event is accepted exactly when \<open>time\<close> is present and
  \<open>int\<close> converts it and, unless the resolution table is empty, \<open>type\<close> and \<open>object_id\<close>
  are present and no width is zero. Every other request fails, with no batch for the
  store, and the failure is an uncaught Python exception (status 500), not a client
  error.
\<close>

theorem post_checks_presence_only:
  "((\<exists>batch. EventsHandler_post parse reg data = Inr batch) \<longleftrightarrow>
      (\<exists>v t. data ''time'' = Some v \<and> py_int parse v = Inr t)
      \<and> (reg = [] \<or> (data ''type'' \<noteq> None \<and> data ''object_id'' \<noteq> None
                       \<and> (\<forall>r \<in> set reg. snd r \<noteq> 0))))
   \<and> (\<forall>e. EventsHandler_post parse reg data = Inl e \<longrightarrow> http_status e = 500)"
  using post_accepts_iff [of parse reg data] post_status [of parse reg data] by blast

theorem post_checks_presence_only_witness:
  "timeless_event ''time'' = None
   \<and> EventsHandler_post plain_decimal TIME_RESOLUTIONS timeless_event = Inl (KeyError (JStr ''time''))
   \<and> http_status (KeyError (JStr ''time'')) = 500"
proof -
  have none: "timeless_event ''time'' = None"
    by (simp add: timeless_event_def)
  then have run: "EventsHandler_post plain_decimal TIME_RESOLUTIONS timeless_event
                    = Inl (KeyError (JStr ''time''))"
    by (simp add: EventsHandler_post_def getitem_def)
  from post_checks_presence_only [of plain_decimal TIME_RESOLUTIONS timeless_event] none run
  show ?thesis by simp
qed

theorem post_accepts_empty_type_counterexample:
  "EventsHandler_post plain_decimal TIME_RESOLUTIONS unchecked_event =
     Inr [\<lparr>ev_type = JStr [], ev_time = 3600, ev_object_id = JStr ''abc''\<rparr>,
          \<lparr>ev_type = JStr [], ev_time = 0, ev_object_id = JStr ''abc''\<rparr>]"
  by (simp add: EventsHandler_post_def unchecked_event_def TIME_RESOLUTIONS_def getitem_def
        prepare_timestamps_for_insert_def round_time_def)

section \<open>The range query planner\<close>

lemma registry_getitem_unknown:
  assumes "\<forall>s. name = JStr s \<longrightarrow> map_of reg s = None"
  shows "registry_getitem reg name = Inl (if hashable name then KeyError name else TypeError)"
  using assms by (cases name) auto

text \<open>
  C3. For a registered resolution of width \<open>w > 0\<close>, a limit \<open>limit \<ge> 0\<close> and a clock
  reading \<open>clock\<close>, \<open>post\<close> asks the store for the window \<open>[start, end]\<close> with \<open>end\<close> the
  clock rounded down to \<open>w\<close> and \<open>start = end - w * limit\<close>; the window is not empty, it
  is the single bucket \<open>[end, end]\<close> for \<open>limit = 0\<close>, and a document of the object passes
  the first stage of the pipeline exactly when \<open>start \<le> time \<le> end\<close>.
\<close>

theorem stats_window:
  assumes "map_of reg name = Some w" "0 < w" "0 \<le> limit"
    and "data ''object_id'' = Some ov" "py_int parse ov = Inr oid"
    and "data ''resolution'' = Some (JStr name)"
    and "data ''limit'' = Some lv" "py_int parse lv = Inr limit"
  shows "\<exists>start end. StatsHandler_post parse reg clock data = Inr (oid, start, end)
           \<and> round_time clock w = Inr end \<and> start = end - w * limit \<and> start \<le> end
           \<and> (limit = 0 \<longrightarrow> start = end)
           \<and> (\<forall>docs d. d \<in> set (stage_match oid start end docs) \<longleftrightarrow>
                  d \<in> set docs \<and> ev_object_id d = JInt oid
                  \<and> start \<le> ev_time d \<and> ev_time d \<le> end)"
proof -
  let ?end = "clock - clock mod w"
  let ?start = "?end - w * limit"
  have r: "round_time clock w = Inr ?end"
    using assms(2) by (simp add: round_time_def)
  have post: "StatsHandler_post parse reg clock data = Inr (oid, ?start, ?end)"
    using assms r by (simp add: StatsHandler_post_def getitem_def compute_start_and_end_def)
  have le: "?start \<le> ?end"
    using assms(2,3) by simp
  have m: "d \<in> set (stage_match oid ?start ?end docs) \<longleftrightarrow>
                  d \<in> set docs \<and> ev_object_id d = JInt oid
                  \<and> ?start \<le> ev_time d \<and> ev_time d \<le> ?end" for docs d
    by (auto simp: stage_match_def)
  from post r le m show ?thesis by auto
qed


theorem stats_window_witness:
  "StatsHandler_post plain_decimal TIME_RESOLUTIONS 10000 hour_request = Inr (7, -3600, 7200)
   \<and> round_time 10000 3600 = Inr 7200"
proof -
  have a: "map_of TIME_RESOLUTIONS ''hour'' = Some 3600"
    by (simp add: TIME_RESOLUTIONS_def)
  have b: "(0::int) < 3600" "(0::int) \<le> 3" by simp_all
  have c: "hour_request ''object_id'' = Some (JInt 7)" "py_int plain_decimal (JInt 7) = Inr 7"
    "hour_request ''resolution'' = Some (JStr ''hour'')"
    "hour_request ''limit'' = Some (JInt 3)" "py_int plain_decimal (JInt 3) = Inr 3"
    by (simp_all add: hour_request_def)
  from stats_window [OF a b c, of 10000]
  obtain start "end" where
    post: "StatsHandler_post plain_decimal TIME_RESOLUTIONS 10000 hour_request = Inr (7, start, end)"
    and e: "round_time 10000 3600 = Inr end" and s: "start = end - 3600 * 3"
    by blast
  from e have "end = 7200"
    by (simp add: round_time_def)
  with post e s show ?thesis by simp
qed

text \<open>
  C7, as the code has it. A statistics request whose \<open>resolution\<close> is absent or is not a
  name of the resolution table never reaches the store and is never given another
  resolution: it fails. The failure is an uncaught Python exception, answered with
  status 500 and not with a client error; when \<open>object_id\<close> is in order it is the
  KeyError of the table lookup (TypeError for a list or a dictionary as the name).
\<close>

theorem unknown_resolution_fails:
  assumes "\<forall>s. data ''resolution'' = Some (JStr s) \<longrightarrow> map_of reg s = None"
  shows "(\<exists>e. StatsHandler_post parse reg clock data = Inl e \<and> http_status e = 500)
       \<and> (\<forall>v oid name. data ''object_id'' = Some v \<and> py_int parse v = Inr oid
              \<and> data ''resolution'' = Some name
            \<longrightarrow> StatsHandler_post parse reg clock data
                  = Inl (if hashable name then KeyError name else TypeError))"
proof -
  have named: "StatsHandler_post parse reg clock data
                  = Inl (if hashable name then KeyError name else TypeError)"
    if "data ''object_id'' = Some v" "py_int parse v = Inr oid" "data ''resolution'' = Some name"
    for v oid name
  proof -
    from assms that(3) have "\<forall>s. name = JStr s \<longrightarrow> map_of reg s = None" by simp
    from registry_getitem_unknown [OF this] that show ?thesis
      by (simp add: StatsHandler_post_def getitem_def)
  qed
  have "\<exists>e. StatsHandler_post parse reg clock data = Inl e"
  proof (cases "data ''resolution''")
    case None
    then show ?thesis
      by (auto simp: StatsHandler_post_def getitem_def split: option.splits sum.splits)
  next
    case (Some name)
    with assms have "\<forall>s. name = JStr s \<longrightarrow> map_of reg s = None" by simp
    from registry_getitem_unknown [OF this] Some show ?thesis
      by (auto simp: StatsHandler_post_def getitem_def split: option.splits sum.splits)
  qed
  with stats_post_status named show ?thesis by blast
qed


theorem unknown_resolution_fails_witness:
  "week_request ''resolution'' = Some (JStr ''week'')
   \<and> map_of TIME_RESOLUTIONS ''week'' = None
   \<and> StatsHandler_post plain_decimal TIME_RESOLUTIONS 10000 week_request
       = Inl (KeyError (JStr ''week''))"
proof -
  have h: "\<forall>s. week_request ''resolution'' = Some (JStr s) \<longrightarrow> map_of TIME_RESOLUTIONS s = None"
    by (simp add: week_request_def TIME_RESOLUTIONS_def)
  have "week_request ''object_id'' = Some (JInt 7) \<and> py_int plain_decimal (JInt 7) = Inr 7
          \<and> week_request ''resolution'' = Some (JStr ''week'')"
    by (simp add: week_request_def)
  with unknown_resolution_fails
         [where data = week_request and reg = TIME_RESOLUTIONS and parse = plain_decimal
            and clock = 10000, OF h]
  have "StatsHandler_post plain_decimal TIME_RESOLUTIONS 10000 week_request
          = Inl (if hashable (JStr ''week'') then KeyError (JStr ''week'') else TypeError)"
    by blast
  then show ?thesis
    by (simp add: week_request_def TIME_RESOLUTIONS_def)
qed

theorem unknown_resolution_status_counterexample:
  "StatsHandler_post plain_decimal TIME_RESOLUTIONS 10000 week_request
     = Inl (KeyError (JStr ''week''))
   \<and> http_status (KeyError (JStr ''week'')) \<noteq> 400"
  by (simp add: StatsHandler_post_def week_request_def TIME_RESOLUTIONS_def getitem_def)

section \<open>The aggregation pipeline\<close>

text \<open>
  Summing over the groups of a partition is summing over the whole list.
\<close>

lemma sum_list_indicator:
  "distinct ks \<Longrightarrow> k \<in> set ks \<Longrightarrow> sum_list (map (\<lambda>j. if k = j then a else (0::nat)) ks) = a"
  by (induction ks) auto

lemma sum_list_partition:
  fixes f :: "'a \<Rightarrow> nat"
  assumes "distinct ks" "g ` set xs \<subseteq> set ks"
  shows "sum_list (map (\<lambda>k. sum_list (map f (filter (\<lambda>x. g x = k) xs))) ks) = sum_list (map f xs)"
  using assms(2)
proof (induction xs)
  case Nil
  then show ?case by simp
next
  case (Cons x xs)
  have "(\<lambda>k. sum_list (map f (filter (\<lambda>x. g x = k) (x # xs))))
      = (\<lambda>k. (if g x = k then f x else 0) + sum_list (map f (filter (\<lambda>x. g x = k) xs)))"
    by auto
  then have "sum_list (map (\<lambda>k. sum_list (map f (filter (\<lambda>x. g x = k) (x # xs)))) ks)
      = sum_list (map (\<lambda>k. if g x = k then f x else 0) ks)
        + sum_list (map (\<lambda>k. sum_list (map f (filter (\<lambda>x. g x = k) xs))) ks)"
    by (simp add: sum_list_addf)
  also have "sum_list (map (\<lambda>k. if g x = k then f x else 0) ks) = f x"
    using Cons.prems assms(1) by (intro sum_list_indicator) auto
  also have "sum_list (map (\<lambda>k. sum_list (map f (filter (\<lambda>x. g x = k) xs))) ks) = sum_list (map f xs)"
    using Cons by simp
  finally show ?case by simp
qed

lemma length_partition:
  assumes "distinct ks" "g ` set xs \<subseteq> set ks"
  shows "sum_list (map (\<lambda>k. length (filter (\<lambda>x. g x = k) xs)) ks) = length xs"
proof -
  have "sum_list (map (\<lambda>k. sum_list (map (\<lambda>x. 1::nat) (filter (\<lambda>x. g x = k) xs))) ks)
          = sum_list (map (\<lambda>x. 1::nat) xs)"
    using assms by (rule sum_list_partition)
  then show ?thesis by (simp add: sum_list_triv)
qed


lemma counts_eq:
  "counts docs = map (\<lambda>(ty, tm). \<lparr>c_time = tm, c_type = ty, c_count = count_of docs ty tm\<rparr>)
                     (remdups (map (\<lambda>d. (ev_type d, ev_time d)) docs))"
  by (simp add: counts_def stage_project_count_def stage_group_count_def count_of_def
        case_prod_unfold)

lemma counts_pairs:
  "map (\<lambda>c. (c_type c, c_time c)) (counts docs) = remdups (map (\<lambda>d. (ev_type d, ev_time d)) docs)"
  by (simp add: counts_eq case_prod_unfold comp_def)

lemma counts_member:
  assumes "c \<in> set (counts docs)"
  shows "c_count c = count_of docs (c_type c) (c_time c)"
    and "\<exists>d \<in> set docs. ev_type d = c_type c \<and> ev_time d = c_time c"
  using assms by (auto simp: counts_eq)

lemma count_of_pos:
  "d \<in> set docs \<Longrightarrow> 0 < count_of docs (ev_type d) (ev_time d)"
  by (auto simp: count_of_def filter_empty_conv)

lemma counts_types: "set (map c_type (counts docs)) = ev_type ` set docs"
  by (force simp: counts_eq)

lemma counts_total: "sum_list (map c_count (counts docs)) = length docs"
proof -
  let ?g = "\<lambda>d. (ev_type d, ev_time d)"
  have "sum_list (map c_count (counts docs))
          = sum_list (map (\<lambda>k. length (filter (\<lambda>d. ?g d = k) docs)) (remdups (map ?g docs)))"
    by (simp add: counts_eq count_of_def comp_def case_prod_unfold prod_eq_iff)
  also have "\<dots> = length docs"
    by (rule length_partition) auto
  finally show ?thesis .
qed

lemma aggregate_events_eq:
  "aggregate_events object_id start end docs =
     map (\<lambda>ty. \<lparr>sr_type = ty,
                sr_events = map (\<lambda>c. \<lparr>pt_events = c_count c, pt_time = c_time c\<rparr>)
                  (filter (\<lambda>c. c_type c = ty) (counts (stage_match object_id start end docs)))\<rparr>)
         (remdups (map c_type (counts (stage_match object_id start end docs))))"
  by (simp add: aggregate_events_def stage_project_series_def stage_group_push_def counts_def)

lemma aggregate_events_types:
  "distinct (map sr_type (aggregate_events object_id start end docs))"
  "set (map sr_type (aggregate_events object_id start end docs))
     = ev_type ` set (stage_match object_id start end docs)"
  by (simp_all add: aggregate_events_eq comp_def counts_types [simplified])

lemma aggregate_events_total:
  "sum_list (map (\<lambda>s. sum_list (map pt_events (sr_events s)))
       (aggregate_events object_id start end docs))
     = length (stage_match object_id start end docs)"
proof -
  let ?C = "counts (stage_match object_id start end docs)"
  have "sum_list (map (\<lambda>s. sum_list (map pt_events (sr_events s)))
           (aggregate_events object_id start end docs))
      = sum_list (map (\<lambda>ty. sum_list (map c_count (filter (\<lambda>c. c_type c = ty) ?C)))
           (remdups (map c_type ?C)))"
    by (simp add: aggregate_events_eq comp_def)
  also have "\<dots> = sum_list (map c_count ?C)"
    by (rule sum_list_partition) auto
  finally show ?thesis
    by (simp add: counts_total)
qed


lemma py_eq_text: "is_text b \<Longrightarrow> py_eq a b \<longleftrightarrow> a = b"
  by (cases b; cases a) (auto simp: py_eq_def)

lemma dict_setitem_fresh:
  "\<forall>k' \<in> fst ` set d. \<not> py_eq k' k \<Longrightarrow> dict_setitem d k v = d @ [(k, v)]"
  by (induction d) auto

lemma dict_setitem_values: "snd ` set (dict_setitem d k v) \<subseteq> insert v (snd ` set d)"
proof (induction d)
  case Nil
  then show ?case by simp
next
  case (Cons kv d)
  obtain k' v' where kv: "kv = (k', v')" by (cases kv)
  show ?case
  proof (cases "py_eq k' k")
    case True
    then show ?thesis by (auto simp: kv)
  next
    case False
    with Cons show ?thesis by (fastforce simp: kv)
  qed
qed

lemma comprehension_texts:
  assumes "\<forall>s \<in> set result. is_text (sr_type s)"
    and "distinct (map fst d @ map sr_type result)"
  shows "comprehension d result = Inr (d @ map (\<lambda>s. (sr_type s, sr_events s)) result)"
  using assms
proof (induction result arbitrary: d)
  case Nil
  then show ?case by simp
next
  case (Cons obj result)
  from Cons.prems have txt_key: "is_text (sr_type obj)" by simp
  then have h: "hashable (sr_type obj)" by (cases "sr_type obj") simp_all
  from Cons.prems(2) have "sr_type obj \<notin> fst ` set d" by auto
  then have "\<forall>k' \<in> fst ` set d. k' \<noteq> sr_type obj" by blast
  with txt_key have "\<forall>k' \<in> fst ` set d. \<not> py_eq k' (sr_type obj)"
    by (simp add: py_eq_text)
  then have fresh: "dict_setitem d (sr_type obj) (sr_events obj) = d @ [(sr_type obj, sr_events obj)]"
    by (rule dict_setitem_fresh)
  have "comprehension (d @ [(sr_type obj, sr_events obj)]) result
          = Inr ((d @ [(sr_type obj, sr_events obj)]) @ map (\<lambda>s. (sr_type s, sr_events s)) result)"
    using Cons.prems by (intro Cons.IH) auto
  with h fresh show ?case by simp
qed

lemma comprehension_values:
  "comprehension d result = Inr resp \<Longrightarrow>
     snd ` set resp \<subseteq> snd ` set d \<union> sr_events ` set result"
proof (induction result arbitrary: d)
  case Nil
  then show ?case by simp
next
  case (Cons obj result)
  from Cons.prems have
    "comprehension (dict_setitem d (sr_type obj) (sr_events obj)) result = Inr resp"
    by (simp split: if_splits)
  from Cons.IH [OF this] dict_setitem_values [of d "sr_type obj" "sr_events obj"]
  show ?case by auto
qed

lemma rollup_types:
  assumes "\<forall>d \<in> set docs. rollup_record d"
  shows "\<forall>s \<in> set (aggregate_events object_id start end docs). is_text (sr_type s)"
proof
  fix s assume "s \<in> set (aggregate_events object_id start end docs)"
  then have "sr_type s \<in> set (map sr_type (aggregate_events object_id start end docs))"
    by simp
  then have "sr_type s \<in> ev_type ` set (stage_match object_id start end docs)"
    by (simp only: aggregate_events_types)
  then obtain d where "d \<in> set docs" "sr_type s = ev_type d"
    by (auto simp: stage_match_def)
  with assms show "is_text (sr_type s)"
    by (auto simp: rollup_record_def)
qed

lemma response_eq:
  assumes "\<forall>d \<in> set docs. rollup_record d"
  shows "StatsHandler_on_post_response (aggregate_events object_id start end docs) None
           = Inr (map (\<lambda>s. (sr_type s, sr_events s)) (aggregate_events object_id start end docs))"
proof -
  have "comprehension [] (aggregate_events object_id start end docs)
          = Inr ([] @ map (\<lambda>s. (sr_type s, sr_events s)) (aggregate_events object_id start end docs))"
    using rollup_types [OF assms] aggregate_events_types(1)
    by (intro comprehension_texts) simp_all
  then show ?thesis
    by (simp add: StatsHandler_on_post_response_def)
qed

lemma point_origin:
  assumes "s \<in> set (aggregate_events object_id start end docs)" "p \<in> set (sr_events s)"
  shows "\<exists>d \<in> set (stage_match object_id start end docs).
           ev_type d = sr_type s \<and> ev_time d = pt_time p
           \<and> pt_events p = count_of (stage_match object_id start end docs) (ev_type d) (ev_time d)"
proof -
  let ?M = "stage_match object_id start end docs"
  from assms obtain c where c: "c \<in> set (counts ?M)" "c_type c = sr_type s"
    and p: "p = \<lparr>pt_events = c_count c, pt_time = c_time c\<rparr>"
    by (auto simp: aggregate_events_eq)
  from counts_member [OF c(1)] c(2) p show ?thesis
    by auto
qed

text \<open>
  The pipeline emits one document per type of the matching documents, and \<open>to_list\<close>
  delivers them all when \<open>max_items\<close> is at least their number.
\<close>

lemma aggregate_events_length:
  "length (aggregate_events object_id start end docs)
     = card (ev_type ` set (stage_match object_id start end docs))"
proof -
  let ?S = "aggregate_events object_id start end docs"
  have "card (set (map sr_type ?S)) = length (map sr_type ?S)"
    using aggregate_events_types(1) by (rule distinct_card)
  then show ?thesis
    by (simp only: aggregate_events_types(2) length_map)
qed

lemma to_list_whole:
  "card (ev_type ` set (stage_match object_id start end docs)) \<le> max_items \<Longrightarrow>
     to_list max_items (aggregate_events object_id start end docs)
       = aggregate_events object_id start end docs"
  by (simp add: to_list_def aggregate_events_length)

lemma stage_match_filter:
  "stage_match object_id start end docs
     = filter (\<lambda>d. ev_object_id d = JInt object_id \<and> start \<le> ev_time d \<and> ev_time d \<le> end) docs"
  by (auto simp: stage_match_def intro: filter_cong)

lemma stage_match_set:
  "set (stage_match object_id start end docs)
     = {d \<in> set docs. ev_object_id d = JInt object_id \<and> start \<le> ev_time d \<and> ev_time d \<le> end}"
  by (auto simp: stage_match_def)

lemma count_of_stage_match:
  "count_of (stage_match object_id start end docs) ty tm
     = length (filter (\<lambda>d. ev_object_id d = JInt object_id \<and> start \<le> ev_time d
                            \<and> ev_time d \<le> end \<and> ev_type d = ty \<and> ev_time d = tm) docs)"
proof -
  have "filter (\<lambda>d. ev_type d = ty \<and> ev_time d = tm) (stage_match object_id start end docs)
      = filter (\<lambda>d. ev_object_id d = JInt object_id \<and> start \<le> ev_time d
                            \<and> ev_time d \<le> end \<and> ev_type d = ty \<and> ev_time d = tm) docs"
    unfolding stage_match_def filter_filter by (rule filter_cong) auto
  then show ?thesis
    by (simp add: count_of_def)
qed

lemma sum_list_take_le:
  fixes f :: "'a \<Rightarrow> nat"
  shows "sum_list (map f (take n xs)) \<le> sum_list (map f xs)"
proof -
  have "sum_list (map f xs) = sum_list (map f (take n xs)) + sum_list (map f (drop n xs))"
    by (metis append_take_drop_id map_append sum_list_append)
  then show ?thesis by simp
qed

lemma response_delivered:
  assumes "\<forall>d \<in> set docs. rollup_record d"
  shows "StatsHandler_on_post_response
           (to_list max_items (aggregate_events object_id start end docs)) None
           = Inr (map (\<lambda>s. (sr_type s, sr_events s))
                    (take max_items (aggregate_events object_id start end docs)))"
proof -
  let ?S = "aggregate_events object_id start end docs"
  have texts: "\<forall>s \<in> set (take max_items ?S). is_text (sr_type s)"
    using rollup_types [OF assms, of object_id start "end"] by (auto dest: in_set_takeD)
  have "distinct (take max_items (map sr_type ?S))"
    using aggregate_events_types(1) by (rule distinct_take)
  then have "distinct (map fst [] @ map sr_type (take max_items ?S))"
    by (simp add: take_map)
  with texts have "comprehension [] (take max_items ?S)
          = Inr ([] @ map (\<lambda>s. (sr_type s, sr_events s)) (take max_items ?S))"
    by (rule comprehension_texts)
  then show ?thesis
    by (simp add: StatsHandler_on_post_response_def to_list_def)
qed

lemma types_card:
  "length (aggregate_events object_id start end docs)
     = card (ev_type ` {d \<in> set docs. ev_object_id d = JInt object_id
                                       \<and> start \<le> ev_time d \<and> ev_time d \<le> end})"
  by (simp only: aggregate_events_length stage_match_set)

lemma types_le_length: "card (ev_type ` {d \<in> set docs. P d}) \<le> length docs"
proof -
  have "card (ev_type ` {d \<in> set docs. P d}) \<le> card {d \<in> set docs. P d}"
    by (rule card_image_le) simp
  also have "\<dots> \<le> card (set docs)"
    by (rule card_mono) auto
  also have "\<dots> \<le> length docs"
    by (rule card_length)
  finally show ?thesis .
qed

lemma example_records_response:
  "StatsHandler_on_post_response (aggregate_events 7 (-3600) 7200 example_records) None
     = Inr [(JStr ''A'', [\<lparr>pt_events = 2, pt_time = 0\<rparr>]),
            (JStr ''B'', [\<lparr>pt_events = 1, pt_time = 3600\<rparr>])]"
  by (simp add: StatsHandler_on_post_response_def aggregate_events_def stage_project_series_def
        stage_group_push_def stage_project_count_def stage_group_count_def stage_match_def
        example_records_def py_eq_def)

lemma distinct_filter_snd:
  "distinct (map (\<lambda>c. (g c, h c)) xs) \<Longrightarrow> distinct (map h (filter (\<lambda>c. g c = k) xs))"
  by (induction xs) (auto simp: image_iff)

lemma counts_set:
  "set (counts docs) = (\<lambda>d. \<lparr>c_time = ev_time d, c_type = ev_type d,
                               c_count = count_of docs (ev_type d) (ev_time d)\<rparr>) ` set docs"
  by (auto simp: counts_eq image_iff)

lemma series_points:
  assumes "s \<in> set (aggregate_events object_id start end docs)"
  shows "distinct (map pt_time (sr_events s))"
    and "set (sr_events s)
          = (\<lambda>tm. \<lparr>pt_events = count_of (stage_match object_id start end docs) (sr_type s) tm,
                     pt_time = tm\<rparr>)
            ` {tm. \<exists>d \<in> set (stage_match object_id start end docs).
                      ev_type d = sr_type s \<and> ev_time d = tm}"
proof -
  let ?M = "stage_match object_id start end docs"
  from assms have ev: "sr_events s = map (\<lambda>c. \<lparr>pt_events = c_count c, pt_time = c_time c\<rparr>)
                  (filter (\<lambda>c. c_type c = sr_type s) (counts ?M))"
    by (auto simp: aggregate_events_eq)
  have "distinct (map (\<lambda>c. (c_type c, c_time c)) (counts ?M))"
    by (simp only: counts_pairs distinct_remdups)
  then have "distinct (map c_time (filter (\<lambda>c. c_type c = sr_type s) (counts ?M)))"
    by (rule distinct_filter_snd)
  then show "distinct (map pt_time (sr_events s))"
    by (simp add: ev comp_def)
  show "set (sr_events s)
          = (\<lambda>tm. \<lparr>pt_events = count_of ?M (sr_type s) tm, pt_time = tm\<rparr>)
            ` {tm. \<exists>d \<in> set ?M. ev_type d = sr_type s \<and> ev_time d = tm}"
  proof (intro set_eqI iffI)
    fix p assume "p \<in> set (sr_events s)"
    then obtain c where c: "c \<in> set (counts ?M)" "c_type c = sr_type s"
      and p: "p = \<lparr>pt_events = c_count c, pt_time = c_time c\<rparr>"
      by (auto simp: ev)
    from counts_member [OF c(1)] c(2) p
    show "p \<in> (\<lambda>tm. \<lparr>pt_events = count_of ?M (sr_type s) tm, pt_time = tm\<rparr>)
            ` {tm. \<exists>d \<in> set ?M. ev_type d = sr_type s \<and> ev_time d = tm}"
      by auto
  next
    fix p assume "p \<in> (\<lambda>tm. \<lparr>pt_events = count_of ?M (sr_type s) tm, pt_time = tm\<rparr>)
            ` {tm. \<exists>d \<in> set ?M. ev_type d = sr_type s \<and> ev_time d = tm}"
    then obtain d where d: "d \<in> set ?M" "ev_type d = sr_type s"
      and p: "p = \<lparr>pt_events = count_of ?M (sr_type s) (ev_time d), pt_time = ev_time d\<rparr>"
      by auto
    let ?c = "\<lparr>c_time = ev_time d, c_type = ev_type d,
               c_count = count_of ?M (ev_type d) (ev_time d)\<rparr>"
    from d(1) have "?c \<in> set (counts ?M)"
      by (auto simp: counts_set)
    with d(2) have "?c \<in> set (filter (\<lambda>c. c_type c = sr_type s) (counts ?M))"
      by simp
    then have "\<lparr>pt_events = c_count ?c, pt_time = c_time ?c\<rparr> \<in> set (sr_events s)"
      unfolding ev set_map by (rule imageI)
    with d(2) p show "p \<in> set (sr_events s)"
      by simp
  qed
qed

lemma example_records_rollup: "\<forall>d \<in> set example_records. rollup_record d"
  by (simp add: example_records_def rollup_record_def)

text \<open>
  C2, as the code has it. For every object, window and collection of RollupRecords, the
  response is a mapping whose keys are types of the stored documents of the object whose
  time lies in the window, each once; the sequence of a type has one point for each time
  at which such a document of that type occurs, and the point's \<open>events\<close> is the number
  of such documents with that type and time. \<open>to_list\<close> delivers only \<open>max_items\<close> of the
  types: the keys are all the types of those documents when there are at most
  \<open>max_items\<close> of them, and \<open>max_items\<close> of them otherwise. With the default setting the
  collection \<open>[(A,0), (A,0), (B,3600)]\<close> yields
  \<open>{A: [{time 0, events 2}], B: [{time 3600, events 1}]}\<close>.
\<close>

theorem aggregation_groups_then_collects:
  "((\<forall>d \<in> set docs. rollup_record d) \<longrightarrow>
     (\<exists>resp. StatsHandler_on_post_response
                (to_list max_items (aggregate_events object_id start end docs)) None
               = Inr resp
        \<and> distinct (map fst resp)
        \<and> length resp
            = min max_items
                (card (ev_type ` {d \<in> set docs. ev_object_id d = JInt object_id
                                       \<and> start \<le> ev_time d \<and> ev_time d \<le> end}))
        \<and> fst ` set resp
            \<subseteq> ev_type ` {d \<in> set docs. ev_object_id d = JInt object_id
                                       \<and> start \<le> ev_time d \<and> ev_time d \<le> end}
        \<and> (card (ev_type ` {d \<in> set docs. ev_object_id d = JInt object_id
                                       \<and> start \<le> ev_time d \<and> ev_time d \<le> end}) \<le> max_items
             \<longrightarrow> fst ` set resp
                   = ev_type ` {d \<in> set docs. ev_object_id d = JInt object_id
                                       \<and> start \<le> ev_time d \<and> ev_time d \<le> end})
        \<and> (\<forall>(ty, pts) \<in> set resp.
              distinct (map pt_time pts)
            \<and> set pts
                = (\<lambda>tm. \<lparr>pt_events =
                             length (filter (\<lambda>d. ev_object_id d = JInt object_id
                                                  \<and> start \<le> ev_time d \<and> ev_time d \<le> end
                                                  \<and> ev_type d = ty \<and> ev_time d = tm) docs),
                           pt_time = tm\<rparr>)
                  ` {tm. \<exists>d \<in> set docs. ev_object_id d = JInt object_id
                                       \<and> start \<le> ev_time d \<and> ev_time d \<le> end
                                       \<and> ev_type d = ty \<and> ev_time d = tm})))
   \<and> StatsHandler_on_post_response
        (to_list 9999999999 (aggregate_events 7 (-3600) 7200 example_records)) None
       = Inr [(JStr ''A'', [\<lparr>pt_events = 2, pt_time = 0\<rparr>]),
              (JStr ''B'', [\<lparr>pt_events = 1, pt_time = 3600\<rparr>])]"
proof (intro conjI impI)
  assume rollup: "\<forall>d \<in> set docs. rollup_record d"
  let ?S = "aggregate_events object_id start end docs"
  let ?resp = "map (\<lambda>s. (sr_type s, sr_events s)) (take max_items ?S)"
  let ?T = "ev_type ` {d \<in> set docs. ev_object_id d = JInt object_id
                                       \<and> start \<le> ev_time d \<and> ev_time d \<le> end}"
  have run: "StatsHandler_on_post_response (to_list max_items ?S) None = Inr ?resp"
    using rollup by (rule response_delivered)
  have keys: "map fst ?resp = take max_items (map sr_type ?S)"
    by (simp add: comp_def take_map)
  have all_keys: "set (map sr_type ?S) = ?T"
    by (simp only: aggregate_events_types(2) stage_match_set)
  have d: "distinct (map fst ?resp)"
    unfolding keys using aggregate_events_types(1) by (rule distinct_take)
  have len: "length ?resp = min max_items (card ?T)"
    by (simp add: types_card min.commute)
  have ks: "fst ` set ?resp = set (map fst ?resp)"
    by (simp only: set_map)
  have "set (map fst ?resp) \<subseteq> set (map sr_type ?S)"
    unfolding keys by (rule set_take_subset)
  then have sub: "fst ` set ?resp \<subseteq> ?T"
    unfolding all_keys ks .
  have eq: "fst ` set ?resp = ?T" if "card ?T \<le> max_items"
  proof -
    from that have "take max_items ?S = ?S"
      by (simp add: types_card)
    then have "map fst ?resp = map sr_type ?S"
      by (simp add: comp_def)
    then have "set (map fst ?resp) = ?T"
      by (simp only: all_keys)
    then show ?thesis unfolding ks .
  qed
  have pts: "distinct (map pt_time pts)
            \<and> set pts
                = (\<lambda>tm. \<lparr>pt_events =
                             length (filter (\<lambda>d. ev_object_id d = JInt object_id
                                                  \<and> start \<le> ev_time d \<and> ev_time d \<le> end
                                                  \<and> ev_type d = ty \<and> ev_time d = tm) docs),
                           pt_time = tm\<rparr>)
                  ` {tm. \<exists>d \<in> set docs. ev_object_id d = JInt object_id
                                       \<and> start \<le> ev_time d \<and> ev_time d \<le> end
                                       \<and> ev_type d = ty \<and> ev_time d = tm}"
    if "(ty, pts) \<in> set ?resp" for ty pts
  proof -
    from that obtain s where "s \<in> set (take max_items ?S)" and ty: "ty = sr_type s"
      and p: "pts = sr_events s"
      by auto
    then have s: "s \<in> set ?S" by (auto dest: in_set_takeD)
    have times: "{tm. \<exists>d \<in> set (stage_match object_id start end docs).
                      ev_type d = sr_type s \<and> ev_time d = tm}
           = {tm. \<exists>d \<in> set docs. ev_object_id d = JInt object_id
                                       \<and> start \<le> ev_time d \<and> ev_time d \<le> end
                                       \<and> ev_type d = sr_type s \<and> ev_time d = tm}"
      by (auto simp: stage_match_set)
    from series_points [OF s] show ?thesis
      unfolding ty p count_of_stage_match times by simp
  qed
  show "\<exists>resp. StatsHandler_on_post_response (to_list max_items ?S) None = Inr resp
        \<and> distinct (map fst resp)
        \<and> length resp = min max_items (card ?T)
        \<and> fst ` set resp \<subseteq> ?T
        \<and> (card ?T \<le> max_items \<longrightarrow> fst ` set resp = ?T)
        \<and> (\<forall>(ty, pts) \<in> set resp.
              distinct (map pt_time pts)
            \<and> set pts
                = (\<lambda>tm. \<lparr>pt_events =
                             length (filter (\<lambda>d. ev_object_id d = JInt object_id
                                                  \<and> start \<le> ev_time d \<and> ev_time d \<le> end
                                                  \<and> ev_type d = ty \<and> ev_time d = tm) docs),
                           pt_time = tm\<rparr>)
                  ` {tm. \<exists>d \<in> set docs. ev_object_id d = JInt object_id
                                       \<and> start \<le> ev_time d \<and> ev_time d \<le> end
                                       \<and> ev_type d = ty \<and> ev_time d = tm})"
  proof (intro exI conjI impI)
    show "StatsHandler_on_post_response (to_list max_items ?S) None = Inr ?resp"
      by (rule run)
    show "distinct (map fst ?resp)"
      by (rule d)
    show "length ?resp = min max_items (card ?T)"
      by (rule len)
    show "fst ` set ?resp \<subseteq> ?T"
      by (rule sub)
    show "fst ` set ?resp = ?T" if "card ?T \<le> max_items"
      using that by (rule eq)
    show "\<forall>(ty, pts) \<in> set ?resp.
              distinct (map pt_time pts)
            \<and> set pts
                = (\<lambda>tm. \<lparr>pt_events =
                             length (filter (\<lambda>d. ev_object_id d = JInt object_id
                                                  \<and> start \<le> ev_time d \<and> ev_time d \<le> end
                                                  \<and> ev_type d = ty \<and> ev_time d = tm) docs),
                           pt_time = tm\<rparr>)
                  ` {tm. \<exists>d \<in> set docs. ev_object_id d = JInt object_id
                                       \<and> start \<le> ev_time d \<and> ev_time d \<le> end
                                       \<and> ev_type d = ty \<and> ev_time d = tm}"
    proof (intro ballI)
      fix x assume x: "x \<in> set ?resp"
      obtain ty pts where "x = (ty, pts)" by (cases x)
      with x pts [of ty pts]
      show "case x of (ty, pts) \<Rightarrow>
              distinct (map pt_time pts)
            \<and> set pts
                = (\<lambda>tm. \<lparr>pt_events =
                             length (filter (\<lambda>d. ev_object_id d = JInt object_id
                                                  \<and> start \<le> ev_time d \<and> ev_time d \<le> end
                                                  \<and> ev_type d = ty \<and> ev_time d = tm) docs),
                           pt_time = tm\<rparr>)
                  ` {tm. \<exists>d \<in> set docs. ev_object_id d = JInt object_id
                                       \<and> start \<le> ev_time d \<and> ev_time d \<le> end
                                       \<and> ev_type d = ty \<and> ev_time d = tm}"
        by simp
    qed
  qed
next
  have "aggregate_events 7 (-3600) 7200 example_records
          = [\<lparr>sr_type = JStr ''A'', sr_events = [\<lparr>pt_events = 2, pt_time = 0\<rparr>]\<rparr>,
             \<lparr>sr_type = JStr ''B'', sr_events = [\<lparr>pt_events = 1, pt_time = 3600\<rparr>]\<rparr>]"
    by (simp add: aggregate_events_def stage_project_series_def
        stage_group_push_def stage_project_count_def stage_group_count_def stage_match_def
        example_records_def)
  then show "StatsHandler_on_post_response
        (to_list 9999999999 (aggregate_events 7 (-3600) 7200 example_records)) None
       = Inr [(JStr ''A'', [\<lparr>pt_events = 2, pt_time = 0\<rparr>]),
              (JStr ''B'', [\<lparr>pt_events = 1, pt_time = 3600\<rparr>])]"
    by (simp add: StatsHandler_on_post_response_def to_list_def py_eq_def)
qed

theorem aggregation_groups_then_collects_witness:
  "StatsHandler_on_post_response
     (to_list 9999999999 (aggregate_events 7 (-3600) 7200 example_records)) None
     = Inr [(JStr ''A'', [\<lparr>pt_events = 2, pt_time = 0\<rparr>]),
            (JStr ''B'', [\<lparr>pt_events = 1, pt_time = 3600\<rparr>])]
   \<and> ev_type ` {d \<in> set example_records. ev_object_id d = JInt 7
                      \<and> -3600 \<le> ev_time d \<and> ev_time d \<le> 7200}
       = {JStr ''A'', JStr ''B''}"
proof -
  let ?T = "ev_type ` {d \<in> set example_records. ev_object_id d = JInt 7
                      \<and> -3600 \<le> ev_time d \<and> ev_time d \<le> 7200}"
  have "card ?T \<le> length example_records"
    by (rule types_le_length)
  then have cap: "card ?T \<le> 9999999999"
    by (simp add: example_records_def)
  note general = aggregation_groups_then_collects
                   [of example_records 9999999999 7 "-3600" 7200, THEN conjunct1, THEN mp,
                    OF example_records_rollup]
  then obtain resp where
    run: "StatsHandler_on_post_response
            (to_list 9999999999 (aggregate_events 7 (-3600) 7200 example_records)) None = Inr resp"
    and keys: "card ?T \<le> 9999999999 \<longrightarrow> fst ` set resp = ?T"
    by (elim exE conjE)
  note example = aggregation_groups_then_collects
                   [of example_records 9999999999 7 "-3600" 7200, THEN conjunct2]
  from run example
  have "resp = [(JStr ''A'', [\<lparr>pt_events = 2, pt_time = 0\<rparr>]),
                (JStr ''B'', [\<lparr>pt_events = 1, pt_time = 3600\<rparr>])]"
    by simp
  with keys cap have "?T = {JStr ''A'', JStr ''B''}"
    by simp
  with example show ?thesis
    by (intro conjI)
qed

theorem aggregation_capped_counterexample:
  "StatsHandler_on_post_response
     (to_list 1 (aggregate_events 7 (-3600) 7200 example_records)) None
     = Inr [(JStr ''A'', [\<lparr>pt_events = 2, pt_time = 0\<rparr>])]"
proof -
  have "aggregate_events 7 (-3600) 7200 example_records
          = [\<lparr>sr_type = JStr ''A'', sr_events = [\<lparr>pt_events = 2, pt_time = 0\<rparr>]\<rparr>,
             \<lparr>sr_type = JStr ''B'', sr_events = [\<lparr>pt_events = 1, pt_time = 3600\<rparr>]\<rparr>]"
    by (simp add: aggregate_events_def stage_project_series_def
        stage_group_push_def stage_project_count_def stage_group_count_def stage_match_def
        example_records_def)
  then show ?thesis
    by (simp add: StatsHandler_on_post_response_def to_list_def)
qed

text \<open>
  C9, as the code has it. For every collection of RollupRecords, object and window, the
  \<open>events\<close> of all points of all types of the response never add up to more than the
  number of stored documents of the object whose time lies in the window, and they add
  up to exactly that number when the types of those documents are at most \<open>max_items\<close>;
  with more types, \<open>to_list\<close> drops the documents of the types it does not deliver.
\<close>

theorem pipeline_conserves_count:
  assumes "\<forall>d \<in> set docs. rollup_record d"
  shows "\<exists>resp. StatsHandler_on_post_response
                  (to_list max_items (aggregate_events object_id start end docs)) None
                  = Inr resp
           \<and> total_events resp
               \<le> length (filter (\<lambda>d. ev_object_id d = JInt object_id
                                     \<and> start \<le> ev_time d \<and> ev_time d \<le> end) docs)
           \<and> (card (ev_type ` {d \<in> set docs. ev_object_id d = JInt object_id
                                       \<and> start \<le> ev_time d \<and> ev_time d \<le> end}) \<le> max_items
                \<longrightarrow> total_events resp
                     = length (filter (\<lambda>d. ev_object_id d = JInt object_id
                                     \<and> start \<le> ev_time d \<and> ev_time d \<le> end) docs))"
proof -
  let ?S = "aggregate_events object_id start end docs"
  let ?g = "\<lambda>s. sum_list (map pt_events (sr_events s))"
  let ?resp = "map (\<lambda>s. (sr_type s, sr_events s)) (take max_items ?S)"
  let ?N = "length (filter (\<lambda>d. ev_object_id d = JInt object_id
                                     \<and> start \<le> ev_time d \<and> ev_time d \<le> end) docs)"
  have run: "StatsHandler_on_post_response (to_list max_items ?S) None = Inr ?resp"
    using assms by (rule response_delivered)
  have whole: "sum_list (map ?g ?S) = ?N"
    by (simp only: aggregate_events_total stage_match_filter)
  have total: "total_events ?resp = sum_list (map ?g (take max_items ?S))"
    by (simp add: total_events_def comp_def)
  have le: "total_events ?resp \<le> ?N"
    unfolding total whole [symmetric] by (rule sum_list_take_le)
  have eq: "total_events ?resp = ?N"
    if "card (ev_type ` {d \<in> set docs. ev_object_id d = JInt object_id
                                       \<and> start \<le> ev_time d \<and> ev_time d \<le> end}) \<le> max_items"
  proof -
    from that have "take max_items ?S = ?S"
      by (simp add: types_card)
    with total whole show ?thesis by simp
  qed
  from run le eq show ?thesis by blast
qed

theorem pipeline_conserves_count_witness:
  "StatsHandler_on_post_response
     (to_list 9999999999 (aggregate_events 7 0 3600 example_records)) None
     = Inr [(JStr ''A'', [\<lparr>pt_events = 2, pt_time = 0\<rparr>]),
            (JStr ''B'', [\<lparr>pt_events = 1, pt_time = 3600\<rparr>])]
   \<and> total_events [(JStr ''A'', [\<lparr>pt_events = 2, pt_time = 0\<rparr>]),
                    (JStr ''B'', [\<lparr>pt_events = 1, pt_time = 3600\<rparr>])] = 3
   \<and> length (filter (\<lambda>d. ev_object_id d = JInt 7 \<and> 0 \<le> ev_time d \<and> ev_time d \<le> 3600)
               example_records) = 3"
proof -
  let ?T = "ev_type ` {d \<in> set example_records. ev_object_id d = JInt 7
                      \<and> 0 \<le> ev_time d \<and> ev_time d \<le> 3600}"
  have "card ?T \<le> length example_records"
    by (rule types_le_length)
  then have cap: "card ?T \<le> 9999999999"
    by (simp add: example_records_def)
  have "aggregate_events 7 0 3600 example_records
          = [\<lparr>sr_type = JStr ''A'', sr_events = [\<lparr>pt_events = 2, pt_time = 0\<rparr>]\<rparr>,
             \<lparr>sr_type = JStr ''B'', sr_events = [\<lparr>pt_events = 1, pt_time = 3600\<rparr>]\<rparr>]"
    by (simp add: aggregate_events_def stage_project_series_def
        stage_group_push_def stage_project_count_def stage_group_count_def stage_match_def
        example_records_def)
  then have run: "StatsHandler_on_post_response
     (to_list 9999999999 (aggregate_events 7 0 3600 example_records)) None
     = Inr [(JStr ''A'', [\<lparr>pt_events = 2, pt_time = 0\<rparr>]),
            (JStr ''B'', [\<lparr>pt_events = 1, pt_time = 3600\<rparr>])]"
    by (simp add: StatsHandler_on_post_response_def to_list_def py_eq_def)
  have n: "length (filter (\<lambda>d. ev_object_id d = JInt 7 \<and> 0 \<le> ev_time d \<and> ev_time d \<le> 3600)
               example_records) = 3"
    by (simp add: example_records_def)
  from pipeline_conserves_count [OF example_records_rollup, of 9999999999 7 0 3600]
  obtain resp where
    r: "StatsHandler_on_post_response
          (to_list 9999999999 (aggregate_events 7 0 3600 example_records)) None = Inr resp"
    and eq: "card ?T \<le> 9999999999 \<longrightarrow>
               total_events resp
                 = length (filter (\<lambda>d. ev_object_id d = JInt 7 \<and> 0 \<le> ev_time d
                                       \<and> ev_time d \<le> 3600) example_records)"
    by (elim exE conjE)
  from r run have "resp = [(JStr ''A'', [\<lparr>pt_events = 2, pt_time = 0\<rparr>]),
                           (JStr ''B'', [\<lparr>pt_events = 1, pt_time = 3600\<rparr>])]"
    by simp
  with eq cap n have "total_events [(JStr ''A'', [\<lparr>pt_events = 2, pt_time = 0\<rparr>]),
                    (JStr ''B'', [\<lparr>pt_events = 1, pt_time = 3600\<rparr>])] = 3"
    by simp
  with run n show ?thesis
    by (intro conjI)
qed

theorem capped_total_counterexample:
  "StatsHandler_on_post_response
     (to_list 1 (aggregate_events 7 0 3600 example_records)) None
     = Inr [(JStr ''A'', [\<lparr>pt_events = 2, pt_time = 0\<rparr>])]
   \<and> total_events [(JStr ''A'', [\<lparr>pt_events = 2, pt_time = 0\<rparr>])] = 2
   \<and> length (filter (\<lambda>d. ev_object_id d = JInt 7 \<and> 0 \<le> ev_time d \<and> ev_time d \<le> 3600)
               example_records) = 3"
proof -
  have "aggregate_events 7 0 3600 example_records
          = [\<lparr>sr_type = JStr ''A'', sr_events = [\<lparr>pt_events = 2, pt_time = 0\<rparr>]\<rparr>,
             \<lparr>sr_type = JStr ''B'', sr_events = [\<lparr>pt_events = 1, pt_time = 3600\<rparr>]\<rparr>]"
    by (simp add: aggregate_events_def stage_project_series_def
        stage_group_push_def stage_project_count_def stage_group_count_def stage_match_def
        example_records_def)
  then have "StatsHandler_on_post_response
     (to_list 1 (aggregate_events 7 0 3600 example_records)) None
     = Inr [(JStr ''A'', [\<lparr>pt_events = 2, pt_time = 0\<rparr>])]"
    by (simp add: StatsHandler_on_post_response_def to_list_def)
  moreover have "total_events [(JStr ''A'', [\<lparr>pt_events = 2, pt_time = 0\<rparr>])] = 2"
    by (simp add: total_events_def)
  moreover have "length (filter (\<lambda>d. ev_object_id d = JInt 7 \<and> 0 \<le> ev_time d \<and> ev_time d \<le> 3600)
               example_records) = 3"
    by (simp add: example_records_def)
  ultimately show ?thesis
    by (intro conjI)
qed

text \<open>
  C10. Every point of a response has \<open>events \<ge> 1\<close> and a time in the window
  \<open>[start, end]\<close>, and some stored document of the object has that time: a bucket with no
  matching document gets no point, and no point lies outside the window. This holds for
  whatever part of the output \<open>to_list\<close> delivers.
\<close>

theorem points_counted_and_in_window:
  assumes "StatsHandler_on_post_response
             (to_list max_items (aggregate_events object_id start end docs)) None = Inr resp"
    and "(ty, pts) \<in> set resp" and "p \<in> set pts"
  shows "1 \<le> pt_events p \<and> start \<le> pt_time p \<and> pt_time p \<le> end
       \<and> (\<exists>d \<in> set docs. ev_object_id d = JInt object_id \<and> ev_time d = pt_time p)"
proof -
  let ?M = "stage_match object_id start end docs"
  let ?S = "aggregate_events object_id start end docs"
  from assms(1) have "comprehension [] (to_list max_items ?S) = Inr resp"
    by (simp add: StatsHandler_on_post_response_def)
  from comprehension_values [OF this] assms(2)
  obtain s where "s \<in> set (to_list max_items ?S)" and pts: "pts = sr_events s"
    by force
  then have s: "s \<in> set ?S"
    by (auto simp: to_list_def dest: in_set_takeD)
  with assms(3) pts point_origin obtain d where d: "d \<in> set ?M" "ev_time d = pt_time p"
    "pt_events p = count_of ?M (ev_type d) (ev_time d)"
    by blast
  from count_of_pos [OF d(1)] d(3) have "1 \<le> pt_events p" by simp
  moreover from d(1) have "d \<in> set docs" "ev_object_id d = JInt object_id"
    "start \<le> ev_time d" "ev_time d \<le> end"
    by (simp_all add: stage_match_def)
  ultimately show ?thesis using d(2) by auto
qed

theorem points_counted_and_in_window_witness:
  "StatsHandler_on_post_response
     (to_list 9999999999 (aggregate_events 7 0 0 example_records)) None
     = Inr [(JStr ''A'', [\<lparr>pt_events = 2, pt_time = 0\<rparr>])]
   \<and> 1 \<le> pt_events \<lparr>pt_events = 2, pt_time = 0\<rparr>
   \<and> (0::int) \<le> pt_time \<lparr>pt_events = 2, pt_time = 0\<rparr>
   \<and> pt_time \<lparr>pt_events = 2, pt_time = 0\<rparr> \<le> (0::int)"
proof -
  have "aggregate_events 7 0 0 example_records
          = [\<lparr>sr_type = JStr ''A'', sr_events = [\<lparr>pt_events = 2, pt_time = 0\<rparr>]\<rparr>]"
    by (simp add: aggregate_events_def stage_project_series_def
        stage_group_push_def stage_project_count_def stage_group_count_def stage_match_def
        example_records_def)
  then have run: "StatsHandler_on_post_response
     (to_list 9999999999 (aggregate_events 7 0 0 example_records)) None
     = Inr [(JStr ''A'', [\<lparr>pt_events = 2, pt_time = 0\<rparr>])]"
    by (simp add: StatsHandler_on_post_response_def to_list_def)
  have "(JStr ''A'', [\<lparr>pt_events = 2, pt_time = 0\<rparr>])
          \<in> set [(JStr ''A'', [\<lparr>pt_events = 2, pt_time = 0\<rparr>])]"
    and "\<lparr>pt_events = 2, pt_time = 0\<rparr> \<in> set [\<lparr>pt_events = 2, pt_time = 0\<rparr>]"
    by simp_all
  from points_counted_and_in_window [OF run this] run
  show ?thesis by blast
qed

section \<open>Ingesting an event twice\<close>

lemma early_event_post:
  "EventsHandler_post plain_decimal TIME_RESOLUTIONS early_event =
     Inr [\<lparr>ev_type = JStr ''click'', ev_time = 0, ev_object_id = JInt 7\<rparr>,
          \<lparr>ev_type = JStr ''click'', ev_time = 0, ev_object_id = JInt 7\<rparr>]"
  by (simp add: EventsHandler_post_def early_event_def TIME_RESOLUTIONS_def getitem_def
        prepare_timestamps_for_insert_def round_time_def)

lemma count_of_append: "count_of (xs @ ys) ty tm = count_of xs ty tm + count_of ys ty tm"
  by (simp add: count_of_def)

lemma stage_match_append:
  "stage_match object_id start end (xs @ ys)
     = stage_match object_id start end xs @ stage_match object_id start end ys"
  by (simp add: stage_match_def)

lemma post_batch:
  assumes "EventsHandler_post parse reg data = Inr batch"
    and "data ''time'' = Some v" "py_int parse v = Inr t"
    and "data ''type'' = Some ty" "data ''object_id'' = Some oid"
  shows "batch = map (\<lambda>r. \<lparr>ev_type = ty, ev_time = t - t mod snd r, ev_object_id = oid\<rparr>) reg"
    and "\<forall>r \<in> set reg. snd r \<noteq> 0"
proof -
  from assms(1) have "\<exists>b. EventsHandler_post parse reg data = Inr b" by blast
  then have nz: "reg = [] \<or> (\<forall>r \<in> set reg. snd r \<noteq> 0)"
    unfolding post_accepts_iff by blast
  then show nz': "\<forall>r \<in> set reg. snd r \<noteq> 0" by auto
  have "EventsHandler_post parse reg data = documents data (prepare_timestamps_for_insert reg t)"
    using assms(2,3) by (simp add: EventsHandler_post_def getitem_def)
  with documents_total [OF assms(4,5) nz', of t] assms(1)
  show "batch = map (\<lambda>r. \<lparr>ev_type = ty, ev_time = t - t mod snd r, ev_object_id = oid\<rparr>) reg"
    by (simp add: case_prod_unfold)
qed


lemma batch_count:
  assumes "\<forall>r \<in> set reg. snd r \<noteq> 0" "start \<le> b" "b \<le> end"
  shows "count_of (stage_match object_id start end
            (map (\<lambda>r. \<lparr>ev_type = ty, ev_time = t - t mod snd r, ev_object_id = JInt object_id\<rparr>) reg))
           ty b
         = length (filter (\<lambda>r. round_time t (snd r) = Inr b) reg)"
  using assms(1)
proof (induction reg)
  case Nil
  then show ?case by (simp add: count_of_def stage_match_def)
next
  case (Cons r reg)
  then have IH: "count_of (stage_match object_id start end
            (map (\<lambda>r. \<lparr>ev_type = ty, ev_time = t - t mod snd r, ev_object_id = JInt object_id\<rparr>) reg))
           ty b
         = length (filter (\<lambda>r. round_time t (snd r) = Inr b) reg)"
    by simp
  from Cons.prems have r: "round_time t (snd r) = Inr (t - t mod snd r)"
    by (simp add: round_time_def)
  show ?case
  proof (cases "t - t mod snd r = b")
    case True
    with IH r assms(2,3) show ?thesis
      by (simp add: count_of_def stage_match_def)
  next
    case False
    with IH r show ?thesis
      by (simp add: count_of_def stage_match_def)
  qed
qed

text \<open>
  C6, as the code has it. Nothing is deduplicated when an event is written: posting the
  same event twice adds its batch, one document per resolution, to the collection twice.
  The documents carry no mark of the resolution that produced them, so a later query of
  the object whose window contains a bucket \<open>b\<close> of the event, and whose types are at
  most \<open>max_items\<close>, reports for the event's type, at time \<open>b\<close>, the number of documents
  of the object with that type and time that were stored before plus twice the number
  of resolutions of the table that round the event's time to \<open>b\<close>. On an otherwise empty
  collection this is 2 when one resolution has that bucket, and 4 when the hour and the
  day bucket coincide.
\<close>

theorem double_ingest_counts:
  assumes post: "EventsHandler_post parse reg data = Inr batch"
    and tm: "data ''time'' = Some v" "py_int parse v = Inr t"
    and ty: "data ''type'' = Some (JStr ty)"
    and oid: "data ''object_id'' = Some (JInt object_id)"
    and db: "\<forall>d \<in> set db. rollup_record d"
    and res: "(name, w) \<in> set reg" "round_time t w = Inr b"
    and win: "start \<le> b" "b \<le> end"
    and cap: "card (ev_type ` {d \<in> set (db @ batch @ batch). ev_object_id d = JInt object_id
                                  \<and> start \<le> ev_time d \<and> ev_time d \<le> end}) \<le> max_items"
  shows "length batch = length reg
       \<and> events_insert (events_insert db batch) batch = db @ batch @ batch
       \<and> (\<exists>resp pts.
             StatsHandler_on_post_response
               (to_list max_items
                 (aggregate_events object_id start end
                   (events_insert (events_insert db batch) batch)))
               None = Inr resp
           \<and> distinct (map fst resp) \<and> (JStr ty, pts) \<in> set resp
           \<and> distinct (map pt_time pts)
           \<and> \<lparr>pt_events =
                  length (filter (\<lambda>d. ev_object_id d = JInt object_id
                                       \<and> start \<le> ev_time d \<and> ev_time d \<le> end
                                       \<and> ev_type d = JStr ty \<and> ev_time d = b) db)
                  + 2 * length (filter (\<lambda>r. round_time t (snd r) = Inr b) reg),
               pt_time = b\<rparr> \<in> set pts)"
proof -
  let ?f = "\<lambda>r. \<lparr>ev_type = JStr ty, ev_time = t - t mod snd r, ev_object_id = JInt object_id\<rparr>"
  let ?db2 = "db @ batch @ batch"
  let ?M = "stage_match object_id start end ?db2"
  let ?S = "aggregate_events object_id start end ?db2"
  let ?resp = "map (\<lambda>s. (sr_type s, sr_events s)) ?S"
  let ?k = "length (filter (\<lambda>r. round_time t (snd r) = Inr b) reg)"
  let ?before = "length (filter (\<lambda>d. ev_object_id d = JInt object_id
                                       \<and> start \<le> ev_time d \<and> ev_time d \<le> end
                                       \<and> ev_type d = JStr ty \<and> ev_time d = b) db)"
  note B = post_batch [OF post tm ty oid]
  have batch: "batch = map ?f reg" by (rule B(1))
  have nz: "\<forall>r \<in> set reg. snd r \<noteq> 0" by (rule B(2))
  have len: "length batch = length reg"
    by (simp add: batch)
  have ins: "events_insert (events_insert db batch) batch = ?db2"
    by (simp add: events_insert_def)
  have rollup: "\<forall>d \<in> set ?db2. rollup_record d"
    using db by (auto simp: batch rollup_record_def)
  from cap have "card (ev_type ` set ?M) \<le> max_items"
    by (simp only: stage_match_set)
  then have whole: "to_list max_items ?S = ?S"
    by (rule to_list_whole)
  have "StatsHandler_on_post_response ?S None = Inr ?resp"
    using rollup by (rule response_eq)
  with whole have run: "StatsHandler_on_post_response (to_list max_items ?S) None = Inr ?resp"
    by simp
  have keys: "distinct (map fst ?resp)"
    using aggregate_events_types(1) [of object_id start "end" ?db2] by (simp add: comp_def)
  from res nz have b: "b = t - t mod w"
    by (auto simp: round_time_def)
  have "?f (name, w) \<in> ?f ` set reg"
    using res(1) by (rule imageI)
  with b have "?f (name, w) \<in> set batch" "ev_time (?f (name, w)) = b"
    by (simp_all add: batch)
  with win have d0: "?f (name, w) \<in> set ?M"
    by (simp add: stage_match_def)
  then have "JStr ty \<in> ev_type ` set ?M"
    by force
  then have "JStr ty \<in> set (map sr_type ?S)"
    by (simp only: aggregate_events_types)
  then obtain s where s: "s \<in> set ?S" "sr_type s = JStr ty"
    by auto
  then have mem: "(JStr ty, sr_events s) \<in> set ?resp"
    by force
  note P = series_points [OF s(1)]
  have "count_of ?M (JStr ty) b
               = count_of (stage_match object_id start end db) (JStr ty) b + 2 * ?k"
    using batch_count [OF nz win, of object_id "JStr ty" t]
    by (simp add: stage_match_append count_of_append batch)
  then have cnt: "count_of ?M (JStr ty) b = ?before + 2 * ?k"
    by (simp only: count_of_stage_match)
  from d0 b have "b \<in> {tm. \<exists>d \<in> set ?M. ev_type d = sr_type s \<and> ev_time d = tm}"
    using s(2) by force
  then have "\<lparr>pt_events = count_of ?M (sr_type s) b, pt_time = b\<rparr> \<in> set (sr_events s)"
    unfolding P(2) by (rule imageI)
  with cnt s(2) have pt: "\<lparr>pt_events = ?before + 2 * ?k, pt_time = b\<rparr> \<in> set (sr_events s)"
    by simp
  from run keys mem P(1) pt have
    "\<exists>resp pts.
             StatsHandler_on_post_response (to_list max_items ?S) None = Inr resp
           \<and> distinct (map fst resp) \<and> (JStr ty, pts) \<in> set resp
           \<and> distinct (map pt_time pts)
           \<and> \<lparr>pt_events = ?before + 2 * ?k, pt_time = b\<rparr> \<in> set pts"
    by blast
  with len ins show ?thesis
    by simp
qed

theorem double_ingest_counts_witness:
  "EventsHandler_post plain_decimal TIME_RESOLUTIONS click_event =
     Inr [\<lparr>ev_type = JStr ''click'', ev_time = 3600, ev_object_id = JInt 7\<rparr>,
          \<lparr>ev_type = JStr ''click'', ev_time = 0, ev_object_id = JInt 7\<rparr>]
   \<and> round_time 3661 3600 = Inr 3600
   \<and> length (filter (\<lambda>r. round_time 3661 (snd r) = Inr 3600) TIME_RESOLUTIONS) = 1
   \<and> length [\<lparr>ev_type = JStr ''click'', ev_time = 3600, ev_object_id = JInt 7\<rparr>,
              \<lparr>ev_type = JStr ''click'', ev_time = 0, ev_object_id = JInt 7\<rparr>]
       = length TIME_RESOLUTIONS
   \<and> StatsHandler_on_post_response
        (to_list 9999999999
          (aggregate_events 7 (-3600) 7200
            (events_insert
              (events_insert []
                [\<lparr>ev_type = JStr ''click'', ev_time = 3600, ev_object_id = JInt 7\<rparr>,
                 \<lparr>ev_type = JStr ''click'', ev_time = 0, ev_object_id = JInt 7\<rparr>])
              [\<lparr>ev_type = JStr ''click'', ev_time = 3600, ev_object_id = JInt 7\<rparr>,
               \<lparr>ev_type = JStr ''click'', ev_time = 0, ev_object_id = JInt 7\<rparr>]))) None
       = Inr [(JStr ''click'', [\<lparr>pt_events = 2, pt_time = 3600\<rparr>,
                                \<lparr>pt_events = 2, pt_time = 0\<rparr>])]"
proof -
  let ?batch = "[\<lparr>ev_type = JStr ''click'', ev_time = 3600, ev_object_id = JInt 7\<rparr>,
                 \<lparr>ev_type = JStr ''click'', ev_time = 0, ev_object_id = JInt 7\<rparr>]"
  have tm: "click_event ''time'' = Some (JInt 3661)" "py_int plain_decimal (JInt 3661) = Inr 3661"
    and ty: "click_event ''type'' = Some (JStr ''click'')"
    and oid: "click_event ''object_id'' = Some (JInt 7)"
    by (simp_all add: click_event_def)
  have db: "\<forall>d \<in> set []. rollup_record d" by simp
  have res: "(''hour'', 3600) \<in> set TIME_RESOLUTIONS" "round_time 3661 3600 = Inr 3600"
    by (simp_all add: TIME_RESOLUTIONS_def round_time_def)
  have win: "(-3600::int) \<le> 3600" "(3600::int) \<le> 7200" by simp_all
  have "card (ev_type ` {d \<in> set ([] @ ?batch @ ?batch). ev_object_id d = JInt 7
                                  \<and> -3600 \<le> ev_time d \<and> ev_time d \<le> 7200})
          \<le> length ([] @ ?batch @ ?batch)"
    by (rule types_le_length)
  then have cap: "card (ev_type ` {d \<in> set ([] @ ?batch @ ?batch). ev_object_id d = JInt 7
                                  \<and> -3600 \<le> ev_time d \<and> ev_time d \<le> 7200})
          \<le> 9999999999"
    by simp
  have k: "length (filter (\<lambda>r. round_time 3661 (snd r) = Inr 3600) TIME_RESOLUTIONS) = 1"
    by (simp add: TIME_RESOLUTIONS_def round_time_def)
  have "aggregate_events 7 (-3600) 7200 (events_insert (events_insert [] ?batch) ?batch)
          = [\<lparr>sr_type = JStr ''click'',
               sr_events = [\<lparr>pt_events = 2, pt_time = 3600\<rparr>, \<lparr>pt_events = 2, pt_time = 0\<rparr>]\<rparr>]"
    by (simp add: aggregate_events_def stage_project_series_def
        stage_group_push_def stage_project_count_def stage_group_count_def stage_match_def
        events_insert_def)
  then have run: "StatsHandler_on_post_response
        (to_list 9999999999
          (aggregate_events 7 (-3600) 7200 (events_insert (events_insert [] ?batch) ?batch))) None
       = Inr [(JStr ''click'', [\<lparr>pt_events = 2, pt_time = 3600\<rparr>,
                                \<lparr>pt_events = 2, pt_time = 0\<rparr>])]"
    by (simp add: StatsHandler_on_post_response_def to_list_def)
  from double_ingest_counts [OF click_event_post tm ty oid db res win cap]
  have "length ?batch = length TIME_RESOLUTIONS" by (rule conjunct1)
  with click_event_post res(2) k run show ?thesis
    by (intro conjI)
qed

theorem double_ingest_counts_four_counterexample:
  "EventsHandler_post plain_decimal TIME_RESOLUTIONS early_event =
     Inr [\<lparr>ev_type = JStr ''click'', ev_time = 0, ev_object_id = JInt 7\<rparr>,
          \<lparr>ev_type = JStr ''click'', ev_time = 0, ev_object_id = JInt 7\<rparr>]
   \<and> StatsHandler_on_post_response
        (to_list 9999999999
          (aggregate_events 7 (-3600) 7200
            (events_insert
              (events_insert []
                [\<lparr>ev_type = JStr ''click'', ev_time = 0, ev_object_id = JInt 7\<rparr>,
                 \<lparr>ev_type = JStr ''click'', ev_time = 0, ev_object_id = JInt 7\<rparr>])
              [\<lparr>ev_type = JStr ''click'', ev_time = 0, ev_object_id = JInt 7\<rparr>,
               \<lparr>ev_type = JStr ''click'', ev_time = 0, ev_object_id = JInt 7\<rparr>]))) None
       = Inr [(JStr ''click'', [\<lparr>pt_events = 4, pt_time = 0\<rparr>])]"
proof -
  let ?batch = "[\<lparr>ev_type = JStr ''click'', ev_time = 0, ev_object_id = JInt 7\<rparr>,
                 \<lparr>ev_type = JStr ''click'', ev_time = 0, ev_object_id = JInt 7\<rparr>]"
  have "aggregate_events 7 (-3600) 7200 (events_insert (events_insert [] ?batch) ?batch)
          = [\<lparr>sr_type = JStr ''click'', sr_events = [\<lparr>pt_events = 4, pt_time = 0\<rparr>]\<rparr>]"
    by (simp add: aggregate_events_def stage_project_series_def
        stage_group_push_def stage_project_count_def stage_group_count_def stage_match_def
        events_insert_def)
  then have "StatsHandler_on_post_response
        (to_list 9999999999
          (aggregate_events 7 (-3600) 7200 (events_insert (events_insert [] ?batch) ?batch))) None
       = Inr [(JStr ''click'', [\<lparr>pt_events = 4, pt_time = 0\<rparr>])]"
    by (simp add: StatsHandler_on_post_response_def to_list_def)
  with early_event_post show ?thesis by (intro conjI)
qed

end
